theory Spec2Isabelle
  imports Complex_Main
begin

section \<open>Section ranker: values, texts and dictionaries\<close>

text \<open>
  The development embeds \<^verbatim>\<open>Challenge_1b/src/section_ranker.py\<close> (class
  \<^verbatim>\<open>SectionRanker\<close>). Conventions of the embedding:
  \<^item> a Python \<^verbatim>\<open>float\<close> is a \<^typ>\<open>real\<close>: the float literals denote the decimal
    fractions they are written as, and \<^verbatim>\<open>+\<close>, \<^verbatim>\<open>*\<close>, \<^verbatim>\<open>/\<close>, \<^verbatim>\<open>min\<close>, \<^verbatim>\<open>math.log\<close> are the exact
    operations (rounding, infinities and NaN are not represented);
  \<^item> a Python \<^verbatim>\<open>str\<close> is a \<^typ>\<open>string\<close> whose characters are the code points below 256;
    \<^verbatim>\<open>str.lower\<close> and the whitespace of \<^verbatim>\<open>str.split()\<close> are those of Python on that range;
  \<^item> a value of type \<^verbatim>\<open>Any\<close> is a \<^verbatim>\<open>pyval\<close>; an operation applied to a value of the
    wrong type raises, and every raise is a value \<open>Inl e\<close> of a result type;
  \<^item> a \<^verbatim>\<open>dict\<close> is a map, a \<^verbatim>\<open>set\<close> of strings is a duplicate-free list in some
    iteration order, and the section dictionaries live in a store addressed by
    references, since \<^verbatim>\<open>rank_sections\<close> copies and then updates them.
\<close>

datatype pyval = VNone | VBool bool | VInt int | VFloat real | VStr string

datatype error = TypeError | AttributeError | ZeroDivisionError

type_synonym pydict = "string \<rightharpoonup> pyval"
type_synonym strdict = "string \<rightharpoonup> string"
type_synonym counter = "string \<rightharpoonup> nat"

text \<open>\<^verbatim>\<open>d.get(key, default)\<close>.\<close>

definition dict_get :: "('k \<rightharpoonup> 'v) \<Rightarrow> 'k \<Rightarrow> 'v \<Rightarrow> 'v" where
  "dict_get d key dflt = (case d key of None \<Rightarrow> dflt | Some v \<Rightarrow> v)"

text \<open>Truth value of an object, as \<^verbatim>\<open>not x\<close> tests it.\<close>

fun truthy :: "pyval \<Rightarrow> bool" where
  "truthy VNone = False"
| "truthy (VBool b) = b"
| "truthy (VInt i) = (i \<noteq> 0)"
| "truthy (VFloat r) = (r \<noteq> 0)"
| "truthy (VStr s) = (s \<noteq> [])"

text \<open>
  The number an object stands for in an ordering comparison with a number
  (\<^verbatim>\<open>idx < 3\<close>); comparing \<^verbatim>\<open>None\<close> or a \<^verbatim>\<open>str\<close> with a number raises
  \<^verbatim>\<open>TypeError\<close>.
\<close>

fun as_number :: "pyval \<Rightarrow> error + real" where
  "as_number (VInt i) = Inr (real_of_int i)"
| "as_number (VFloat r) = Inr r"
| "as_number (VBool b) = Inr (if b then 1 else 0)"
| "as_number VNone = Inl TypeError"
| "as_number (VStr s) = Inl TypeError"

text \<open>True division \<^verbatim>\<open>a / b\<close> of two integers.\<close>

definition truediv :: "nat \<Rightarrow> nat \<Rightarrow> error + real" where
  "truediv a b = (if b = 0 then Inl ZeroDivisionError else Inr (real a / real b))"

subsection \<open>Texts\<close>

definition py_isspace :: "char \<Rightarrow> bool" where
  "py_isspace c = (of_char c \<in> {9, 10, 11, 12, 13, 28, 29, 30, 31, 32, 133, 160 :: nat})"

definition lower_char :: "char \<Rightarrow> char" where
  "lower_char c =
     (let n = (of_char c :: nat)
      in if (65 \<le> n \<and> n \<le> 90) \<or> (192 \<le> n \<and> n \<le> 222 \<and> n \<noteq> 215)
         then char_of (n + 32) else c)"

definition py_lower :: "string \<Rightarrow> string" where
  "py_lower s = map lower_char s"

text \<open>
  \<^verbatim>\<open>s.split()\<close>: the maximal runs of non-whitespace characters, in order. The first
  argument is the token being read.
\<close>

fun split_from :: "string \<Rightarrow> string \<Rightarrow> string list" where
  "split_from tok [] = (if tok = [] then [] else [tok])"
| "split_from tok (c # cs) =
     (if py_isspace c
      then (if tok = [] then split_from [] cs else tok # split_from [] cs)
      else split_from (tok @ [c]) cs)"

definition py_split :: "string \<Rightarrow> string list" where
  "py_split s = split_from [] s"

subsection \<open>The store of dictionaries\<close>

text \<open>
  A reference is an index into the store; a new dictionary is allocated at the end.
  \<^verbatim>\<open>d.copy()\<close> allocates a dictionary with the entries of \<open>d\<close>; \<^verbatim>\<open>d[key] = v\<close>
  updates the dictionary a reference points to.
\<close>

type_synonym ref = nat
type_synonym store = "pydict list"

definition dict_copy :: "store \<Rightarrow> ref \<Rightarrow> store \<times> ref" where
  "dict_copy h r = (h @ [h ! r], length h)"

definition setitem :: "store \<Rightarrow> ref \<Rightarrow> string \<Rightarrow> pyval \<Rightarrow> store" where
  "setitem h r key v = h[r := (h ! r)(key \<mapsto> v)]"

section \<open>The scorers\<close>

definition compute_position_weight :: "pydict \<Rightarrow> error + real" where
  "compute_position_weight doc_section =
     (let idx = dict_get doc_section ''position'' (VInt 0)
      in case as_number idx of
           Inl e \<Rightarrow> Inl e
         | Inr i \<Rightarrow> if i < 3 then Inr 1.0 else if i < 10 then Inr 0.8 else Inr 0.6)"

definition extract_context_keywords :: "string \<Rightarrow> string \<Rightarrow> string list" where
  "extract_context_keywords role_info task_info =
     (let combined_text = py_lower (role_info @ '' '' @ task_info)
      in remdups (filter (\<lambda>word. length word > 2) (py_split combined_text)))"

text \<open>\<^verbatim>\<open>Counter(word_list)\<close>: one more for the word at each occurrence.\<close>

definition tally :: "string \<Rightarrow> counter \<Rightarrow> counter" where
  "tally w m = m(w \<mapsto> (case m w of None \<Rightarrow> 1 | Some c \<Rightarrow> c + 1))"

definition Counter :: "string list \<Rightarrow> counter" where
  "Counter word_list = fold tally word_list Map.empty"

definition calculate_word_frequencies :: "string \<Rightarrow> counter" where
  "calculate_word_frequencies text_content = Counter (py_split (py_lower text_content))"

definition build_persona_context :: "strdict \<Rightarrow> strdict \<Rightarrow> strdict" where
  "build_persona_context user_persona job_details =
     [''persona_role'' \<mapsto> dict_get user_persona ''role'' '''',
      ''job_context'' \<mapsto> dict_get job_details ''task'' '''']"

definition assess_content_length :: "string \<Rightarrow> real" where
  "assess_content_length text_content =
     (let word_count = length (py_split text_content)
      in if word_count < 10 then 0.3
         else if word_count < 50 then 0.8
         else if word_count < 200 then 1.0
         else if word_count < 500 then 0.7
         else 0.4)"

text \<open>
  The loop of \<^verbatim>\<open>_sum_keyword_scores\<close>, with the running \<^verbatim>\<open>total_score\<close> as last
  argument. \<^verbatim>\<open>word_freq[keyword]\<close> is read only under \<^verbatim>\<open>keyword in word_freq\<close>.
\<close>

fun sum_keyword_loop :: "string list \<Rightarrow> counter \<Rightarrow> nat \<Rightarrow> real \<Rightarrow> error + real" where
  "sum_keyword_loop [] word_freq total_count total_score = Inr total_score"
| "sum_keyword_loop (keyword # rest) word_freq total_count total_score =
     (case word_freq keyword of
        None \<Rightarrow> sum_keyword_loop rest word_freq total_count total_score
      | Some c \<Rightarrow>
          (case truediv c total_count of
             Inl e \<Rightarrow> Inl e
           | Inr term_frequency \<Rightarrow>
               (case truediv 1 (max 1 c) of
                  Inl e \<Rightarrow> Inl e
                | Inr q \<Rightarrow>
                    (let inverse_doc_freq = ln (1 + q)
                     in sum_keyword_loop rest word_freq total_count
                          (total_score + term_frequency * inverse_doc_freq)))))"

definition sum_keyword_scores :: "string list \<Rightarrow> counter \<Rightarrow> nat \<Rightarrow> error + real" where
  "sum_keyword_scores keywords word_freq total_count =
     sum_keyword_loop keywords word_freq total_count 0.0"

definition compute_tfidf_relevance :: "string \<Rightarrow> strdict \<Rightarrow> error + real" where
  "compute_tfidf_relevance text_content context_data =
     (let role_keywords = extract_context_keywords
            (dict_get context_data ''persona_role'' '''')
            (dict_get context_data ''job_context'' '''')
      in if role_keywords = [] then Inr 0.5
         else
           (let word_frequencies = calculate_word_frequencies text_content;
                total_words = length (py_split (py_lower text_content))
            in case sum_keyword_scores role_keywords word_frequencies total_words of
                 Inl e \<Rightarrow> Inl e
               | Inr relevance_sum \<Rightarrow> Inr (min relevance_sum 1.0)))"

text \<open>
  \<^verbatim>\<open>_compute_final_score\<close>. A content that is true but no \<^verbatim>\<open>str\<close> has no
  \<^verbatim>\<open>lower\<close> and no \<^verbatim>\<open>split\<close>: whichever of the two is reached first raises
  \<^verbatim>\<open>AttributeError\<close>.
\<close>

definition compute_final_score :: "pydict \<Rightarrow> strdict \<Rightarrow> error + real" where
  "compute_final_score doc_section context_data =
     (let section_content = dict_get doc_section ''content'' (VStr '''')
      in if \<not> truthy section_content then Inr 0.0
         else
           (case section_content of
              VStr text_content \<Rightarrow>
                (case compute_tfidf_relevance text_content context_data of
                   Inl e \<Rightarrow> Inl e
                 | Inr semantic_score \<Rightarrow>
                     (let length_weight = assess_content_length text_content
                      in case compute_position_weight doc_section of
                           Inl e \<Rightarrow> Inl e
                         | Inr position_weight \<Rightarrow>
                             (let final_score = 0.6 * semantic_score + 0.3 * length_weight
                                    + 0.1 * position_weight
                              in Inr (min final_score 1.0))))
            | _ \<Rightarrow> Inl AttributeError))"

section \<open>The ranker\<close>

text \<open>
  The \<^verbatim>\<open>for\<close> loop of \<^verbatim>\<open>rank_sections\<close>: the store and the list
  \<^verbatim>\<open>ranked_sections\<close> are threaded through. A raise leaves the loop with the store as
  it is then.
\<close>

fun rank_loop :: "strdict \<Rightarrow> ref list \<Rightarrow> store \<Rightarrow> ref list \<Rightarrow> store \<times> (error + ref list)" where
  "rank_loop context_data [] h ranked_sections = (h, Inr ranked_sections)"
| "rank_loop context_data (doc_section # rest) h ranked_sections =
     (case compute_final_score (h ! doc_section) context_data of
        Inl e \<Rightarrow> (h, Inl e)
      | Inr relevance_value \<Rightarrow>
          (let (h1, updated_section) = dict_copy h doc_section;
               h2 = setitem h1 updated_section ''relevance_score'' (VFloat relevance_value);
               h3 = setitem h2 updated_section ''final_relevance_score'' (VFloat relevance_value)
           in rank_loop context_data rest h3 (ranked_sections @ [updated_section])))"

text \<open>
  The sort key \<^verbatim>\<open>x.get('relevance_score', 0)\<close>, and
  \<^verbatim>\<open>list.sort(key=..., reverse=True)\<close>: the list is reversed, sorted stably in
  ascending key order and reversed again. The keys are compared as numbers; in
  \<^verbatim>\<open>rank_sections\<close> every key is the float stored by the loop just before, and a key
  that is no number is reported as \<^verbatim>\<open>TypeError\<close>.
\<close>

definition sort_key_of :: "store \<Rightarrow> ref \<Rightarrow> pyval" where
  "sort_key_of h x = dict_get (h ! x) ''relevance_score'' (VInt 0)"

definition key_number :: "store \<Rightarrow> ref \<Rightarrow> real" where
  "key_number h x = (case as_number (sort_key_of h x) of Inl e \<Rightarrow> 0 | Inr v \<Rightarrow> v)"

definition sort_reverse :: "store \<Rightarrow> ref list \<Rightarrow> error + ref list" where
  "sort_reverse h xs =
     (if list_ex (\<lambda>x. isl (as_number (sort_key_of h x))) xs then Inl TypeError
      else Inr (rev (sort_key (key_number h) (rev xs))))"

definition rank_sections ::
    "store \<Rightarrow> ref list \<Rightarrow> strdict \<Rightarrow> strdict \<Rightarrow> store \<times> (error + ref list)" where
  "rank_sections h doc_sections user_persona job_details =
     (if doc_sections = [] then (h, Inr [])
      else
        (let context_data = build_persona_context user_persona job_details
         in case rank_loop context_data doc_sections h [] of
              (h', Inl e) \<Rightarrow> (h', Inl e)
            | (h', Inr ranked_sections) \<Rightarrow> (h', sort_reverse h' ranked_sections)))"

section \<open>Auxiliary notions for the statements\<close>

text \<open>The contribution of one keyword to the sum of \<^verbatim>\<open>_sum_keyword_scores\<close>.\<close>

definition keyword_term :: "counter \<Rightarrow> nat \<Rightarrow> string \<Rightarrow> real" where
  "keyword_term word_freq total_count keyword =
     (case word_freq keyword of
        None \<Rightarrow> 0
      | Some c \<Rightarrow> real c / real total_count * ln (1 + 1 / real (max 1 c)))"

text \<open>
  The section dictionaries the scorers accept without a raise: a content, when
  present, is a \<^verbatim>\<open>str\<close>, and a position, when present, is an \<^verbatim>\<open>int\<close>.
\<close>

definition well_typed_section :: "pydict \<Rightarrow> bool" where
  "well_typed_section d =
     ((case d ''content'' of None \<Rightarrow> True | Some (VStr s) \<Rightarrow> True | Some _ \<Rightarrow> False)
    \<and> (case d ''position'' of None \<Rightarrow> True | Some (VInt p) \<Rightarrow> True | Some _ \<Rightarrow> False))"

text \<open>
  The dictionary the loop of \<^verbatim>\<open>rank_sections\<close> allocates for a section with score
  \<open>v\<close>, and the score of the section at a reference (0 where scoring raises).
\<close>

definition scored_copy :: "pydict \<Rightarrow> real \<Rightarrow> pydict" where
  "scored_copy d v = d(''relevance_score'' \<mapsto> VFloat v, ''final_relevance_score'' \<mapsto> VFloat v)"

definition score_value :: "store \<Rightarrow> strdict \<Rightarrow> ref \<Rightarrow> real" where
  "score_value h context_data r =
     (case compute_final_score (h ! r) context_data of Inl e \<Rightarrow> 0 | Inr v \<Rightarrow> v)"

section \<open>Texts and counters\<close>

lemma split_from_word:
  "split_from [] (''w '' @ s) = ''w'' # split_from [] s"
  by (simp add: py_isspace_def)

lemma split_words: "py_split (concat (replicate n ''w '')) = replicate n ''w''"
  unfolding py_split_def
proof (induction n)
  case 0
  show ?case by simp
next
  case (Suc n)
  have "split_from [] (concat (replicate (Suc n) ''w ''))
          = split_from [] (''w '' @ concat (replicate n ''w ''))"
    by simp
  also have "\<dots> = ''w'' # split_from [] (concat (replicate n ''w ''))"
    by (rule split_from_word)
  finally show ?case using Suc by simp
qed

lemma length_split_words: "length (py_split (concat (replicate n ''w ''))) = n"
  by (simp add: split_words)

lemma extract_empty: "extract_context_keywords '''' '''' = []"
  by (simp add: extract_context_keywords_def py_lower_def py_split_def lower_char_def
      py_isspace_def)

lemma tally_apply:
  "tally a m w = (if w = a then Some (case m a of None \<Rightarrow> 1 | Some c \<Rightarrow> c + 1) else m w)"
  by (simp add: tally_def)

lemma fold_tally:
  "fold tally ws m w =
     (case m w of
        None \<Rightarrow> if w \<in> set ws then Some (count_list ws w) else None
      | Some c \<Rightarrow> Some (c + count_list ws w))"
proof (induction ws arbitrary: m)
  case Nil
  show ?case by (simp split: option.split)
next
  case (Cons a ws)
  have "fold tally (a # ws) m w = fold tally ws (tally a m) w"
    by simp
  also have "\<dots> = (case tally a m w of
        None \<Rightarrow> if w \<in> set ws then Some (count_list ws w) else None
      | Some c \<Rightarrow> Some (c + count_list ws w))"
    by (rule Cons.IH)
  also have "\<dots> = (case m w of
        None \<Rightarrow> if w \<in> set (a # ws) then Some (count_list (a # ws) w) else None
      | Some c \<Rightarrow> Some (c + count_list (a # ws) w))"
    by (cases "m w"; cases "w = a"; simp add: tally_apply)
  finally show ?case .
qed

lemma Counter_count:
  "Counter ws w = (if w \<in> set ws then Some (count_list ws w) else None)"
  by (simp add: Counter_def fold_tally)

lemma Counter_Some:
  assumes "Counter ws w = Some c"
  shows "w \<in> set ws" and "c = count_list ws w" and "1 \<le> c" and "1 \<le> length ws"
proof -
  show w: "w \<in> set ws" using assms by (simp add: Counter_count split: if_splits)
  show c: "c = count_list ws w" using assms by (simp add: Counter_count split: if_splits)
  have "count_list ws w \<noteq> 0" using w by (simp add: count_list_0_iff)
  then show "1 \<le> c" using c by simp
  show "1 \<le> length ws" using w by (cases ws) auto
qed

section \<open>The keyword sum\<close>

lemma sum_keyword_loop_total:
  assumes "\<forall>k\<in>set ks. word_freq k \<noteq> None \<longrightarrow> total_count \<noteq> 0"
  shows "sum_keyword_loop ks word_freq total_count acc
           = Inr (acc + sum_list (map (keyword_term word_freq total_count) ks))"
  using assms
proof (induction ks arbitrary: acc)
  case Nil
  show ?case by simp
next
  case (Cons k ks)
  show ?case
  proof (cases "word_freq k")
    case None
    then show ?thesis using Cons by (simp add: keyword_term_def)
  next
    case (Some c)
    then have "total_count \<noteq> 0" using Cons.prems by simp
    then show ?thesis using Some Cons
      by (simp add: keyword_term_def truediv_def add.assoc)
  qed
qed

lemma keyword_term_nonneg: "0 \<le> keyword_term word_freq total_count k"
  by (simp add: keyword_term_def split: option.split)

lemma isspace_lower: "py_isspace (lower_char c) = py_isspace c"
proof -
  have r: "of_char c < (256::nat)" by simp
  show ?thesis
    unfolding py_isspace_def lower_char_def Let_def
    by (auto simp: )
qed

lemma split_from_ws: "\<forall>c\<in>set s. py_isspace c \<Longrightarrow> split_from [] s = []"
  by (induction s) auto

lemma split_lower_ws:
  assumes "\<forall>c\<in>set s. py_isspace c"
  shows "py_split (py_lower s) = []"
  unfolding py_split_def py_lower_def
  by (rule split_from_ws) (use assms in \<open>simp add: isspace_lower\<close>)

lemma frequencies_Some:
  assumes "calculate_word_frequencies text_content k = Some c"
  shows "1 \<le> c" and "1 \<le> length (py_split (py_lower text_content))"
  using assms Counter_Some(3,4) unfolding calculate_word_frequencies_def by blast+

lemma sum_keyword_scores_total:
  "sum_keyword_scores keywords (calculate_word_frequencies text_content)
       (length (py_split (py_lower text_content)))
     = Inr (sum_list (map (keyword_term (calculate_word_frequencies text_content)
              (length (py_split (py_lower text_content)))) keywords))"
proof -
  have "\<forall>k\<in>set keywords. calculate_word_frequencies text_content k \<noteq> None
          \<longrightarrow> length (py_split (py_lower text_content)) \<noteq> 0"
    using frequencies_Some(2) by fastforce
  then show ?thesis
    unfolding sum_keyword_scores_def by (simp add: sum_keyword_loop_total)
qed

lemma sum_terms_nonneg: "0 \<le> sum_list (map (keyword_term word_freq total_count) ks)"
  by (rule sum_list_nonneg) (auto simp: keyword_term_nonneg)

lemma tfidf_value:
  "compute_tfidf_relevance text_content context_data =
     (let role_keywords = extract_context_keywords
            (dict_get context_data ''persona_role'' '''')
            (dict_get context_data ''job_context'' '''')
      in if role_keywords = [] then Inr 0.5
         else Inr (min (sum_list (map (keyword_term (calculate_word_frequencies text_content)
              (length (py_split (py_lower text_content)))) role_keywords)) 1))"
  by (simp add: compute_tfidf_relevance_def Let_def sum_keyword_scores_total)

lemma tfidf_range:
  "\<exists>v. compute_tfidf_relevance text_content context_data = Inr v \<and> 0 \<le> v \<and> v \<le> 1"
proof (cases "extract_context_keywords (dict_get context_data ''persona_role'' [])
      (dict_get context_data ''job_context'' []) = []")
  case True
  then have "compute_tfidf_relevance text_content context_data = Inr (1/2)"
    by (simp add: tfidf_value)
  then show ?thesis by (intro exI [of _ "1/2"]) simp
next
  case False
  then show ?thesis
    using sum_terms_nonneg by (simp add: tfidf_value Let_def)
qed

lemma position_weight_range:
  assumes "as_number (dict_get doc_section ''position'' (VInt 0)) = Inr idx"
  shows "\<exists>v. compute_position_weight doc_section = Inr v \<and> 0 \<le> v \<and> v \<le> 1"
proof -
  have "compute_position_weight doc_section
          = Inr (if idx < 3 then 1 else if idx < 10 then 4/5 else 3/5)"
    using assms by (simp add: compute_position_weight_def)
  then show ?thesis
    by (intro exI [of _ "if idx < 3 then 1 else if idx < 10 then 4/5 else 3/5"]) simp
qed

lemma length_weight_range:
  "0 \<le> assess_content_length text_content \<and> assess_content_length text_content \<le> 1"
  by (simp add: assess_content_length_def Let_def)


lemma sum_terms_as_set:
  assumes "distinct ks"
  shows "sum_list (map (keyword_term (Counter ws) (length ws)) ks)
       = (\<Sum>k \<in> {k \<in> set ks. k \<in> set ws}.
            real (count_list ws k) / real (length ws)
              * ln (1 + 1 / real (max 1 (count_list ws k))))"
proof -
  let ?f = "keyword_term (Counter ws) (length ws)"
  let ?g = "\<lambda>k. real (count_list ws k) / real (length ws)
              * ln (1 + 1 / real (max 1 (count_list ws k)))"
  have "sum_list (map ?f ks) = sum ?f (set ks)"
    using assms by (simp add: sum_list_distinct_conv_sum_set)
  also have "\<dots> = (\<Sum>k \<in> set ks. if k \<in> set ws then ?g k else 0)"
  proof (rule sum.cong)
    fix k
    show "?f k = (if k \<in> set ws then ?g k else 0)"
      by (simp add: keyword_term_def Counter_count)
  qed simp
  also have "\<dots> = sum ?g {k \<in> set ks. k \<in> set ws}"
    by (simp only: sum.inter_filter [OF finite_set])
  finally show ?thesis .
qed


subsection \<open>Evaluations on sample texts\<close>

lemma ex_keywords:
  "extract_context_keywords ''Student'' ''learn math'' = [''student'', ''learn'', ''math'']"
  by code_simp

lemma ex_words: "py_split (py_lower ''Math is fun and math is useful'')
   = [''math'', ''is'', ''fun'', ''and'', ''math'', ''is'', ''useful'']"
  by code_simp

lemma ex_set:
  "{k \<in> set [''student'', ''learn'', ''math''].
      k \<in> set [''math'', ''is'', ''fun'', ''and'', ''math'', ''is'', ''useful'']} = {''math''}"
  by auto


lemma ex_words_short: "py_split (py_lower ''math is fun'') = [''math'', ''is'', ''fun'']"
  by code_simp


lemma ex_split_short: "py_split ''math is fun'' = [''math'', ''is'', ''fun'']"
  by code_simp


section \<open>Properties of the scorers\<close>

text \<open>
  Claim C5. A section whose content is absent or the empty text has final score \<open>0.0\<close>,
  for every context (so for every persona and job) and whatever is stored under
  \<^verbatim>\<open>position\<close>. The other scorers are not consulted: the score is \<open>0.0\<close> also for a
  position that is no number, where the position scorer itself raises.
\<close>

theorem final_score_no_content:
  assumes "doc_section ''content'' = None \<or> doc_section ''content'' = Some (VStr '''')"
  shows "compute_final_score doc_section context_data = Inr 0
       \<and> compute_final_score (doc_section(''position'' := p))
            (build_persona_context user_persona job_details) = Inr 0"
  using assms by (auto simp: compute_final_score_def dict_get_def)

theorem final_score_no_content_witness:
  "compute_position_weight [''content'' \<mapsto> VStr '''', ''position'' \<mapsto> VStr ''first'']
     = Inl TypeError
   \<and> compute_final_score [''content'' \<mapsto> VStr '''', ''position'' \<mapsto> VStr ''first'']
        [''persona_role'' \<mapsto> ''Student'', ''job_context'' \<mapsto> ''learn math''] = Inr 0
   \<and> compute_final_score
        ([''content'' \<mapsto> VStr '''', ''position'' \<mapsto> VStr ''first''](''position'' := Some VNone))
        (build_persona_context [''role'' \<mapsto> ''Student''] [''task'' \<mapsto> ''learn math'']) = Inr 0"
  using final_score_no_content [of "[''content'' \<mapsto> VStr '''', ''position'' \<mapsto> VStr ''first'']"
      "[''persona_role'' \<mapsto> ''Student'', ''job_context'' \<mapsto> ''learn math'']" "Some VNone"
      "[''role'' \<mapsto> ''Student'']" "[''task'' \<mapsto> ''learn math'']"]
  by (simp add: compute_position_weight_def dict_get_def)

text \<open>
  Claim C6. Whenever the keyword set extracted from the context is empty, the TF-IDF
  style scorer returns \<open>0.5\<close> for every content; this is the case in particular for
  the context built from a persona and a job whose role and task are empty or absent.
\<close>

theorem tfidf_no_keywords:
  "(extract_context_keywords (dict_get context_data ''persona_role'' '''')
        (dict_get context_data ''job_context'' '''') = []
      \<longrightarrow> compute_tfidf_relevance text_content context_data = Inr 0.5)
   \<and> (dict_get user_persona ''role'' '''' = '''' \<and> dict_get job_details ''task'' '''' = ''''
      \<longrightarrow> compute_tfidf_relevance text_content
            (build_persona_context user_persona job_details) = Inr 0.5)"
  by (simp add: compute_tfidf_relevance_def build_persona_context_def dict_get_def
      extract_empty)

theorem tfidf_no_keywords_witness:
  "extract_context_keywords
       (dict_get [''persona_role'' \<mapsto> ''a'', ''job_context'' \<mapsto> ''of''] ''persona_role'' '''')
       (dict_get [''persona_role'' \<mapsto> ''a'', ''job_context'' \<mapsto> ''of''] ''job_context'' '''') = []
   \<and> compute_tfidf_relevance ''math is fun''
        [''persona_role'' \<mapsto> ''a'', ''job_context'' \<mapsto> ''of''] = Inr 0.5
   \<and> compute_tfidf_relevance ''math is fun''
        (build_persona_context Map.empty [''task'' \<mapsto> '''']) = Inr 0.5"
proof -
  have k: "extract_context_keywords ''a'' ''of'' = []"
    by code_simp
  show ?thesis
    using tfidf_no_keywords [of "[''persona_role'' \<mapsto> ''a'', ''job_context'' \<mapsto> ''of'']"
        "''math is fun''" Map.empty "[''task'' \<mapsto> '''']"] k
    by (simp add: dict_get_def)
qed

text \<open>
  Claim C8. With \<open>n\<close> the number of whitespace-separated tokens of the content, the
  length scorer gives \<open>0.3\<close> for \<open>n < 10\<close>, \<open>0.8\<close> for \<open>10 \<le> n < 50\<close>, \<open>1.0\<close> for
  \<open>50 \<le> n < 200\<close>, \<open>0.7\<close> for \<open>200 \<le> n < 500\<close> and \<open>0.4\<close> for \<open>500 \<le> n\<close>; token counts
  9, 10, 49, 50, 199, 200, 499 and 500 give 0.3, 0.8, 0.8, 1.0, 1.0, 0.7, 0.7 and 0.4.
\<close>

theorem length_brackets:
  fixes text_content :: string
  defines "n \<equiv> length (py_split text_content)"
  defines "w \<equiv> assess_content_length text_content"
  shows "(n < 10 \<longrightarrow> w = 0.3)
       \<and> (10 \<le> n \<and> n < 50 \<longrightarrow> w = 0.8)
       \<and> (50 \<le> n \<and> n < 200 \<longrightarrow> w = 1.0)
       \<and> (200 \<le> n \<and> n < 500 \<longrightarrow> w = 0.7)
       \<and> (500 \<le> n \<longrightarrow> w = 0.4)
       \<and> (n = 9 \<longrightarrow> w = 0.3) \<and> (n = 10 \<longrightarrow> w = 0.8)
       \<and> (n = 49 \<longrightarrow> w = 0.8) \<and> (n = 50 \<longrightarrow> w = 1.0)
       \<and> (n = 199 \<longrightarrow> w = 1.0) \<and> (n = 200 \<longrightarrow> w = 0.7)
       \<and> (n = 499 \<longrightarrow> w = 0.7) \<and> (n = 500 \<longrightarrow> w = 0.4)"
  by (simp add: n_def w_def assess_content_length_def)

theorem length_brackets_witness:
  "assess_content_length (concat (replicate 9 ''w '')) = 0.3
 \<and> assess_content_length (concat (replicate 10 ''w '')) = 0.8
 \<and> assess_content_length (concat (replicate 49 ''w '')) = 0.8
 \<and> assess_content_length (concat (replicate 50 ''w '')) = 1.0
 \<and> assess_content_length (concat (replicate 199 ''w '')) = 1.0
 \<and> assess_content_length (concat (replicate 200 ''w '')) = 0.7
 \<and> assess_content_length (concat (replicate 499 ''w '')) = 0.7
 \<and> assess_content_length (concat (replicate 500 ''w '')) = 0.4"
  using length_brackets [of "concat (replicate 9 ''w '')"]
    length_brackets [of "concat (replicate 10 ''w '')"]
    length_brackets [of "concat (replicate 49 ''w '')"]
    length_brackets [of "concat (replicate 50 ''w '')"]
    length_brackets [of "concat (replicate 199 ''w '')"]
    length_brackets [of "concat (replicate 200 ''w '')"]
    length_brackets [of "concat (replicate 499 ''w '')"]
    length_brackets [of "concat (replicate 500 ''w '')"]
  unfolding length_split_words by simp

text \<open>
  Claim C9. For an integer position \<open>p\<close> the position scorer returns \<open>1.0\<close> if
  \<open>p < 3\<close>, \<open>0.8\<close> if \<open>3 \<le> p < 10\<close> and \<open>0.6\<close> if \<open>10 \<le> p\<close>; a section without a
  position is scored \<open>1.0\<close> as position 0 is, and nothing is raised. Replacing the
  position by a smaller one, all else fixed, never gives a smaller weight.
\<close>

theorem position_brackets:
  "(doc_section ''position'' = Some (VInt p) \<longrightarrow>
      compute_position_weight doc_section
        = Inr (if p < 3 then 1.0 else if p < 10 then 0.8 else 0.6))
   \<and> (doc_section ''position'' = None \<longrightarrow>
        compute_position_weight doc_section = Inr 1.0
      \<and> compute_position_weight doc_section
          = compute_position_weight (doc_section(''position'' \<mapsto> VInt 0)))
   \<and> (doc_section ''position'' = Some (VInt p) \<and> p' \<le> p \<longrightarrow>
        (case (compute_position_weight doc_section,
               compute_position_weight (doc_section(''position'' \<mapsto> VInt p'))) of
           (Inr a, Inr b) \<Rightarrow> a \<le> b
         | _ \<Rightarrow> False))"
  by (simp add: compute_position_weight_def dict_get_def)

theorem position_brackets_witness:
  "compute_position_weight [''position'' \<mapsto> VInt 2] = Inr 1.0
 \<and> compute_position_weight [''position'' \<mapsto> VInt 3] = Inr 0.8
 \<and> compute_position_weight [''position'' \<mapsto> VInt 9] = Inr 0.8
 \<and> compute_position_weight [''position'' \<mapsto> VInt 10] = Inr 0.6
 \<and> compute_position_weight [''content'' \<mapsto> VStr ''text''] = Inr 1.0
 \<and> (case (compute_position_weight [''position'' \<mapsto> VInt 10],
           compute_position_weight ([''position'' \<mapsto> VInt 10](''position'' \<mapsto> VInt 2))) of
       (Inr a, Inr b) \<Rightarrow> a \<le> b
     | _ \<Rightarrow> False)"
  using position_brackets [of "[''position'' \<mapsto> VInt 2]" 2 0]
    position_brackets [of "[''position'' \<mapsto> VInt 3]" 3 0]
    position_brackets [of "[''position'' \<mapsto> VInt 9]" 9 0]
    position_brackets [of "[''position'' \<mapsto> VInt 10]" 10 2]
    position_brackets [of "[''content'' \<mapsto> VStr ''text'']" 0 0]
  by simp

text \<open>
  Claim C1. For a section whose content is a non-empty text (and whose position, absent
  or not, is a number, as the position scorer requires), the final scorer returns
  \<open>min (0.6 * semantic + 0.3 * length + 0.1 * position) 1.0\<close>, the clamped blend of the
  results of the three scorers, and this value lies between 0 and 1.
\<close>

theorem final_score_blend:
  assumes content: "doc_section ''content'' = Some (VStr text_content)"
    and nonempty: "text_content \<noteq> []"
    and position: "as_number (dict_get doc_section ''position'' (VInt 0)) = Inr idx"
  shows "\<exists>semantic_score position_weight.
           compute_tfidf_relevance text_content context_data = Inr semantic_score
         \<and> compute_position_weight doc_section = Inr position_weight
         \<and> compute_final_score doc_section context_data
             = Inr (min (0.6 * semantic_score + 0.3 * assess_content_length text_content
                      + 0.1 * position_weight) 1.0)
         \<and> 0 \<le> min (0.6 * semantic_score + 0.3 * assess_content_length text_content
                      + 0.1 * position_weight) 1.0
         \<and> min (0.6 * semantic_score + 0.3 * assess_content_length text_content
                      + 0.1 * position_weight) 1.0 \<le> 1"
proof -
  obtain s where s: "compute_tfidf_relevance text_content context_data = Inr s" "0 \<le> s"
    using tfidf_range by blast
  obtain p where p: "compute_position_weight doc_section = Inr p" "0 \<le> p"
    using position_weight_range [OF position] by blast
  have l: "0 \<le> assess_content_length text_content"
    using length_weight_range by blast
  have final: "compute_final_score doc_section context_data
      = Inr (min (0.6 * s + 0.3 * assess_content_length text_content + 0.1 * p) 1.0)"
    using content nonempty s(1) p(1) by (simp add: compute_final_score_def dict_get_def)
  have "0 \<le> 0.6 * s + 0.3 * assess_content_length text_content + 0.1 * p"
    using s(2) p(2) l by simp
  then have "0 \<le> min (0.6 * s + 0.3 * assess_content_length text_content + 0.1 * p) 1.0"
    by simp
  then show ?thesis using s(1) p(1) final by auto
qed

theorem final_score_blend_witness:
  "compute_final_score [''content'' \<mapsto> VStr ''math is fun'', ''position'' \<mapsto> VInt 4] Map.empty
     = Inr 0.47"
proof -
  let ?d = "[''content'' \<mapsto> VStr ''math is fun'', ''position'' \<mapsto> VInt 4]"
  have t: "compute_tfidf_relevance ''math is fun'' Map.empty = Inr (1/2)"
    by (simp add: tfidf_value dict_get_def extract_empty)
  have p: "compute_position_weight ?d = Inr (4/5)"
    by (simp add: compute_position_weight_def dict_get_def)
  have l: "assess_content_length ''math is fun'' = 3/10"
    by (simp add: assess_content_length_def ex_split_short)
  have n: "as_number (dict_get ?d ''position'' (VInt 0)) = Inr 4"
    by (simp add: dict_get_def)
  have c: "?d ''content'' = Some (VStr ''math is fun'')" and e: "''math is fun'' \<noteq> []"
    by simp_all
  obtain s w where "compute_tfidf_relevance ''math is fun'' Map.empty = Inr s"
    and "compute_position_weight ?d = Inr w"
    and "compute_final_score ?d Map.empty
           = Inr (min (0.6 * s + 0.3 * assess_content_length ''math is fun'' + 0.1 * w) 1.0)"
    using final_score_blend [OF c e n, of Map.empty] by blast
  then show ?thesis
    using t p l by simp
qed

text \<open>
  Claim C7. For every content and every context with a non-empty keyword set, the
  TF-IDF style score is \<open>min 1 S\<close>, where \<open>S\<close> is the sum over the keywords occurring
  among the whitespace-separated tokens of the lower-cased content of
  \<open>count / total_words * ln (1 + 1 / max 1 count)\<close>, with \<open>count\<close> the number of
  occurrences of the keyword among these tokens, which is what the frequency mapping
  holds, and \<open>total_words\<close> the number of tokens. Keywords that do not occur add nothing.
\<close>

theorem tfidf_formula:
  fixes text_content :: string and context_data :: strdict
  defines "keywords \<equiv> extract_context_keywords
      (dict_get context_data ''persona_role'' '''') (dict_get context_data ''job_context'' '''')"
  defines "words \<equiv> py_split (py_lower text_content)"
  assumes nonempty: "keywords \<noteq> []"
  shows "compute_tfidf_relevance text_content context_data
           = Inr (min 1 (\<Sum>keyword \<in> {k \<in> set keywords. k \<in> set words}.
                    real (count_list words keyword) / real (length words)
                      * ln (1 + 1 / real (max 1 (count_list words keyword)))))
       \<and> (\<forall>k. calculate_word_frequencies text_content k
                = (if k \<in> set words then Some (count_list words k) else None))"
proof
  have d: "distinct keywords"
    by (simp add: keywords_def extract_context_keywords_def Let_def)
  have "compute_tfidf_relevance text_content context_data
      = Inr (min (sum_list (map (keyword_term (Counter words) (length words)) keywords)) 1)"
    using nonempty
    by (simp add: tfidf_value Let_def keywords_def words_def calculate_word_frequencies_def)
  then show "compute_tfidf_relevance text_content context_data
           = Inr (min 1 (\<Sum>keyword \<in> {k \<in> set keywords. k \<in> set words}.
                    real (count_list words keyword) / real (length words)
                      * ln (1 + 1 / real (max 1 (count_list words keyword)))))"
    by (simp only: sum_terms_as_set [OF d] min.commute)
  show "\<forall>k. calculate_word_frequencies text_content k
                = (if k \<in> set words then Some (count_list words k) else None)"
    by (simp add: calculate_word_frequencies_def words_def Counter_count)
qed


theorem tfidf_formula_witness:
  "compute_tfidf_relevance ''Math is fun and math is useful''
     [''persona_role'' \<mapsto> ''Student'', ''job_context'' \<mapsto> ''learn math'']
     = Inr (2 / 7 * ln (3 / 2))
   \<and> calculate_word_frequencies ''Math is fun and math is useful'' ''math'' = Some 2
   \<and> calculate_word_frequencies ''Math is fun and math is useful'' ''learn'' = None"
proof -
  let ?ctx = "[''persona_role'' \<mapsto> ''Student'', ''job_context'' \<mapsto> ''learn math'']"
  have kw: "extract_context_keywords (dict_get ?ctx ''persona_role'' '''')
      (dict_get ?ctx ''job_context'' '''') = [''student'', ''learn'', ''math'']"
    by (simp add: dict_get_def ex_keywords)
  have ne: "extract_context_keywords (dict_get ?ctx ''persona_role'' '''')
      (dict_get ?ctx ''job_context'' '''') \<noteq> []"
    by (simp add: kw)
  have le: "2 / 7 * ln (3 / 2) \<le> (1::real)"
  proof -
    have "ln (3 / 2) \<le> (3 / 2 :: real) - 1"
      by (rule ln_le_minus_one) simp
    then show ?thesis by simp
  qed
  have "compute_tfidf_relevance ''Math is fun and math is useful'' ?ctx
          = Inr (min 1 (\<Sum>keyword \<in> {''math''}.
              real (count_list [''math'', ''is'', ''fun'', ''and'', ''math'', ''is'', ''useful''] keyword)
               / real (length [''math'', ''is'', ''fun'', ''and'', ''math'', ''is'', ''useful''])
               * ln (1 + 1 / real (max 1
                   (count_list [''math'', ''is'', ''fun'', ''and'', ''math'', ''is'', ''useful''] keyword)))))
       \<and> (\<forall>k. calculate_word_frequencies ''Math is fun and math is useful'' k
                = (if k \<in> set [''math'', ''is'', ''fun'', ''and'', ''math'', ''is'', ''useful'']
                   then Some (count_list [''math'', ''is'', ''fun'', ''and'', ''math'', ''is'', ''useful''] k)
                   else None))"
    using tfidf_formula [OF ne, of "''Math is fun and math is useful''"]
    unfolding kw ex_words ex_set .
  then show ?thesis using le by simp
qed

text \<open>
  Claim C10. The keyword sum never divides by zero. A keyword present in the frequency
  mapping of a content has a count of at least 1, and the content then has at least one
  token; so the sum over any keywords and the TF-IDF style score are computed without
  a raise for every content and context. For a non-empty content that consists of
  whitespace only there are no tokens, and the keyword sum is 0.
\<close>

theorem keyword_sum_no_zero_division:
  fixes text_content :: string and context_data :: strdict
  defines "word_freq \<equiv> calculate_word_frequencies text_content"
  defines "total_words \<equiv> length (py_split (py_lower text_content))"
  shows "(\<forall>k c. word_freq k = Some c \<longrightarrow> 1 \<le> c \<and> 1 \<le> total_words)
       \<and> (\<exists>s. sum_keyword_scores keywords word_freq total_words = Inr s)
       \<and> (\<exists>v. compute_tfidf_relevance text_content context_data = Inr v)
       \<and> (text_content \<noteq> [] \<and> (\<forall>c\<in>set text_content. py_isspace c) \<longrightarrow>
            total_words = 0 \<and> sum_keyword_scores keywords word_freq total_words = Inr 0)"
proof (intro conjI allI impI)
  fix k c
  assume "word_freq k = Some c"
  then show "1 \<le> c" and "1 \<le> total_words"
    using frequencies_Some unfolding word_freq_def total_words_def by blast+
next
  show "\<exists>s. sum_keyword_scores keywords word_freq total_words = Inr s"
    unfolding word_freq_def total_words_def by (simp add: sum_keyword_scores_total)
next
  show "\<exists>v. compute_tfidf_relevance text_content context_data = Inr v"
    using tfidf_range by blast
next
  assume ws: "text_content \<noteq> [] \<and> (\<forall>c\<in>set text_content. py_isspace c)"
  then have e: "py_split (py_lower text_content) = []"
    by (simp add: split_lower_ws)
  then show "total_words = 0"
    by (simp add: total_words_def)
  have "\<And>k. word_freq k = None"
    by (simp add: word_freq_def calculate_word_frequencies_def e Counter_count)
  then have "keyword_term word_freq total_words = (\<lambda>k. 0)"
    by (intro ext) (simp add: keyword_term_def)
  then have "sum_list (map (keyword_term word_freq total_words) keywords) = 0"
    by simp
  then show "sum_keyword_scores keywords word_freq total_words = Inr 0"
    unfolding word_freq_def total_words_def by (simp add: sum_keyword_scores_total)
qed


theorem keyword_sum_no_zero_division_witness:
  "length (py_split (py_lower ''   '')) = 0
   \<and> sum_keyword_scores [''math''] (calculate_word_frequencies ''   '')
        (length (py_split (py_lower ''   ''))) = Inr 0
   \<and> calculate_word_frequencies ''math is fun'' ''math'' = Some 1
   \<and> 1 \<le> length (py_split (py_lower ''math is fun''))"
proof -
  have f: "calculate_word_frequencies ''math is fun'' ''math'' = Some 1"
    by (simp add: calculate_word_frequencies_def ex_words_short Counter_count)
  have w: "''   '' \<noteq> [] \<and> (\<forall>c\<in>set ''   ''. py_isspace c)"
    by (simp add: py_isspace_def)
  show ?thesis
    using keyword_sum_no_zero_division [of "''   ''" "[''math'']" Map.empty] w
      keyword_sum_no_zero_division [of "''math is fun''" "[]" Map.empty] f
    by blast
qed


section \<open>The ranking loop and the sort\<close>

lemma upt_shift: "[n ..< n + Suc k] = n # [Suc n ..< Suc n + k]"
proof -
  have "n < n + Suc k" by simp
  then have "[n ..< n + Suc k] = n # [Suc n ..< n + Suc k]" by (rule upt_conv_Cons)
  moreover have "n + Suc k = Suc n + k" by simp
  ultimately show ?thesis by (simp only:)
qed

lemma setitem_last: "setitem (h @ [d]) (length h) key v = h @ [d(key \<mapsto> v)]"
  by (simp add: setitem_def)

lemma score_value_append:
  "r < length h \<Longrightarrow> score_value (h @ ext) context_data r = score_value h context_data r"
  by (simp add: score_value_def nth_append)

lemma rank_loop_step:
  "rank_loop context_data (r # rs) h acc =
     (case compute_final_score (h ! r) context_data of
        Inl e \<Rightarrow> (h, Inl e)
      | Inr v \<Rightarrow> rank_loop context_data rs (h @ [scored_copy (h ! r) v]) (acc @ [length h]))"
  by (simp add: dict_copy_def setitem_last scored_copy_def split: sum.split)

lemma rank_loop_extends:
  "rank_loop context_data rs h acc = (h', res) \<Longrightarrow> \<exists>ext. h' = h @ ext"
proof (induction rs arbitrary: h acc)
  case Nil
  then show ?case by simp
next
  case (Cons r rs)
  show ?case
  proof (cases "compute_final_score (h ! r) context_data")
    case (Inl e)
    then show ?thesis using Cons.prems by (simp add: rank_loop_step del: rank_loop.simps)
  next
    case (Inr v)
    then have "rank_loop context_data rs (h @ [scored_copy (h ! r) v]) (acc @ [length h]) = (h', res)"
      using Cons.prems by (simp add: rank_loop_step del: rank_loop.simps)
    from Cons.IH [OF this] obtain ext where "h' = (h @ [scored_copy (h ! r) v]) @ ext" ..
    then show ?thesis by simp
  qed
qed

lemma rank_loop_scored:
  assumes "rank_loop context_data rs h acc = (h', Inr out)"
    and "\<forall>r\<in>set rs. r < length h"
  shows "\<forall>r\<in>set rs. compute_final_score (h ! r) context_data
           = Inr (score_value h context_data r)"
  using assms
proof (induction rs arbitrary: h acc)
  case Nil
  then show ?case by simp
next
  case (Cons r rs)
  show ?case
  proof (cases "compute_final_score (h ! r) context_data")
    case (Inl e)
    then show ?thesis using Cons.prems by (simp add: rank_loop_step del: rank_loop.simps)
  next
    case (Inr v)
    let ?h = "h @ [scored_copy (h ! r) v]"
    have run: "rank_loop context_data rs ?h (acc @ [length h]) = (h', Inr out)"
      using Cons.prems Inr by (simp add: rank_loop_step del: rank_loop.simps)
    have valid: "\<forall>r\<in>set rs. r < length ?h"
      using Cons.prems(2) by auto
    have same: "\<And>x. x \<in> set rs \<Longrightarrow> ?h ! x = h ! x"
      using Cons.prems(2) by (simp add: nth_append)
    have "\<forall>x\<in>set rs. compute_final_score (?h ! x) context_data
           = Inr (score_value ?h context_data x)"
      by (rule Cons.IH [OF run valid])
    then have "\<forall>x\<in>set rs. compute_final_score (h ! x) context_data
           = Inr (score_value h context_data x)"
      using Cons.prems(2) by (simp add: same score_value_append)
    then show ?thesis using Inr by (simp add: score_value_def)
  qed
qed

lemma rank_loop_result:
  assumes "\<forall>r\<in>set rs. r < length h"
    and "\<forall>r\<in>set rs. compute_final_score (h ! r) context_data
           = Inr (score_value h context_data r)"
  shows "rank_loop context_data rs h acc =
    (h @ map (\<lambda>r. scored_copy (h ! r) (score_value h context_data r)) rs,
     Inr (acc @ [length h ..< length h + length rs]))"
  using assms
proof (induction rs arbitrary: h acc)
  case Nil
  then show ?case by simp
next
  case (Cons r rs)
  let ?v = "score_value h context_data r"
  let ?h = "h @ [scored_copy (h ! r) ?v]"
  have v: "compute_final_score (h ! r) context_data = Inr ?v"
    using Cons.prems(2) by simp
  have valid: "\<forall>r\<in>set rs. r < length ?h"
    using Cons.prems(1) by auto
  have same: "\<And>x. x \<in> set rs \<Longrightarrow> ?h ! x = h ! x"
    using Cons.prems(1) by (simp add: nth_append)
  have sv: "\<And>x. x \<in> set rs \<Longrightarrow> score_value ?h context_data x = score_value h context_data x"
    using Cons.prems(1) by (simp add: score_value_append)
  have scored: "\<forall>x\<in>set rs. compute_final_score (?h ! x) context_data
           = Inr (score_value ?h context_data x)"
    using Cons.prems(2) by (simp add: same sv)
  have step: "rank_loop context_data (r # rs) h acc
          = rank_loop context_data rs ?h (acc @ [length h])"
    by (simp add: rank_loop_step v del: rank_loop.simps)
  have ih: "rank_loop context_data rs ?h (acc @ [length h])
     = (?h @ map (\<lambda>x. scored_copy (?h ! x) (score_value ?h context_data x)) rs,
     Inr ((acc @ [length h]) @ [length ?h ..< length ?h + length rs]))"
    by (rule Cons.IH [OF valid scored])
  have m: "map (\<lambda>x. scored_copy (?h ! x) (score_value ?h context_data x)) rs
        = map (\<lambda>x. scored_copy (h ! x) (score_value h context_data x)) rs"
    by (rule map_cong) (simp_all add: same sv)
  have u: "[length h ..< length h + length (r # rs)]
        = length h # [length ?h ..< length ?h + length rs]"
    using upt_shift [of "length h" "length rs"] by simp
  have c1: "?h @ map (\<lambda>x. scored_copy (?h ! x) (score_value ?h context_data x)) rs
      = h @ map (\<lambda>x. scored_copy (h ! x) (score_value h context_data x)) (r # rs)"
    unfolding m by simp
  have c2: "(acc @ [length h]) @ [length ?h ..< length ?h + length rs]
      = acc @ [length h ..< length h + length (r # rs)]"
    unfolding u by simp
  show ?case
    by (simp only: step ih c1 c2)
qed

lemma well_typed_scored:
  assumes "well_typed_section d"
  shows "\<exists>v. compute_final_score d context_data = Inr v"
proof (cases "d ''content''")
  case None
  then show ?thesis by (simp add: compute_final_score_def dict_get_def)
next
  case (Some c)
  then obtain s where c: "d ''content'' = Some (VStr s)"
    using assms by (cases c) (simp_all add: well_typed_section_def)
  show ?thesis
  proof (cases "s = []")
    case True
    then show ?thesis using c by (simp add: compute_final_score_def dict_get_def)
  next
    case False
    have "\<exists>idx. as_number (dict_get d ''position'' (VInt 0)) = Inr idx"
    proof (cases "d ''position''")
      case None
      then show ?thesis by (simp add: dict_get_def)
    next
      case (Some p)
      then show ?thesis using assms
        by (cases p) (simp_all add: well_typed_section_def dict_get_def)
    qed
    then obtain idx where "as_number (dict_get d ''position'' (VInt 0)) = Inr idx" ..
    then obtain w where w: "compute_position_weight d = Inr w"
      using position_weight_range by blast
    obtain t where t: "compute_tfidf_relevance s context_data = Inr t"
      using tfidf_range by blast
    show ?thesis using c False w t
      by (simp add: compute_final_score_def dict_get_def)
  qed
qed

lemma scored_copy_apply:
  "scored_copy d v key =
     (if key = ''relevance_score'' \<or> key = ''final_relevance_score'' then Some (VFloat v)
      else d key)"
  by (simp add: scored_copy_def)

lemma key_number_scored:
  assumes "h' ! x = scored_copy d v"
  shows "sort_key_of h' x = VFloat v" and "key_number h' x = v"
  using assms by (simp_all add: key_number_def sort_key_of_def dict_get_def scored_copy_apply)

lemma rev_sort_descending:
  "sorted_wrt (\<lambda>x y. f y \<le> f x) (rev (sort_key f xs))"
proof -
  have "sorted (map f (sort_key f xs))" by (rule sorted_sort_key)
  then have "sorted_wrt (\<lambda>x y. f x \<le> f y) (sort_key f xs)"
    by (simp only: sorted_map)
  then show ?thesis by (simp only: sorted_wrt_rev)
qed

lemma rev_sort_stable:
  "filter (\<lambda>y. f y = k) (rev (sort_key f (rev xs))) = filter (\<lambda>y. f y = k) xs"
proof -
  have "filter (\<lambda>y. f y = k) (rev (sort_key f (rev xs)))
      = rev (filter (\<lambda>y. f y = k) (sort_key f (rev xs)))"
    by (rule rev_filter [symmetric])
  also have "\<dots> = rev (filter (\<lambda>y. f y = k) (rev xs))"
    by (simp only: sort_key_stable)
  also have "\<dots> = filter (\<lambda>y. f y = k) (rev (rev xs))"
    by (rule rev_filter)
  finally show ?thesis by simp
qed

lemma filter_sorted_nth:
  assumes "sorted_wrt R (filter P ys)" and "i < j" and "j < length ys"
    and "P (ys ! i)" and "P (ys ! j)"
  shows "R (ys ! i) (ys ! j)"
  using assms
proof (induction ys arbitrary: i j)
  case Nil
  then show ?case by simp
next
  case (Cons y ys)
  obtain j' where j: "j = Suc j'" using Cons.prems(2) by (cases j) auto
  have j': "j' < length ys" using Cons.prems(3) j by simp
  have Pj: "P (ys ! j')" using Cons.prems(5) j by simp
  show ?case
  proof (cases i)
    case 0
    then have Py: "P y" using Cons.prems(4) by simp
    have "ys ! j' \<in> set (filter P ys)"
      using j' Pj by simp
    moreover have "\<forall>z\<in>set (filter P ys). R y z"
      using Cons.prems(1) Py by simp
    ultimately have "R y (ys ! j')" by blast
    then show ?thesis using 0 j by simp
  next
    case (Suc i')
    have s: "sorted_wrt R (filter P ys)"
      using Cons.prems(1) by (cases "P y") simp_all
    have i': "i' < j'" using Cons.prems(2) Suc j by simp
    have Pi: "P (ys ! i')" using Cons.prems(4) Suc by simp
    have "R (ys ! i') (ys ! j')"
      by (rule Cons.IH [OF s i' j' Pi Pj])
    then show ?thesis using Suc j by simp
  qed
qed

lemma rev_sort_ties_in_order:
  fixes f :: "nat \<Rightarrow> 'b::linorder"
  assumes "sorted_wrt (<) xs" and "i < j" and "j < length xs"
    and "f (rev (sort_key f (rev xs)) ! i) = f (rev (sort_key f (rev xs)) ! j)"
  shows "rev (sort_key f (rev xs)) ! i < rev (sort_key f (rev xs)) ! j"
proof -
  define out where "out = rev (sort_key f (rev xs))"
  define k where "k = f (out ! j)"
  have "sorted_wrt (<) (filter (\<lambda>y. f y = k) xs)"
    using assms(1) by (rule sorted_wrt_filter)
  then have s: "sorted_wrt (<) (filter (\<lambda>y. f y = k) out)"
    unfolding out_def by (simp only: rev_sort_stable)
  have l: "j < length out" using assms(3) by (simp add: out_def)
  have Pi: "f (out ! i) = k" using assms(4) by (simp add: out_def k_def)
  have Pj: "f (out ! j) = k" by (simp add: k_def)
  have "out ! i < out ! j"
    by (rule filter_sorted_nth [where P = "\<lambda>y. f y = k", OF s assms(2) l Pi Pj])
  then show ?thesis by (simp only: out_def)
qed

lemma rank_loop_store_nth:
  assumes "i < length rs"
  shows "(h @ map (\<lambda>r. scored_copy (h ! r) (score_value h context_data r)) rs) ! (length h + i)
       = scored_copy (h ! (rs ! i)) (score_value h context_data (rs ! i))"
  using assms by (simp add: nth_append)

lemma sort_reverse_scored:
  assumes "\<forall>x\<in>set xs. \<exists>d v. h' ! x = scored_copy d v"
  shows "sort_reverse h' xs = Inr (rev (sort_key (key_number h') (rev xs)))"
proof -
  have "\<not> list_ex (\<lambda>x. isl (as_number (sort_key_of h' x))) xs"
    using assms by (auto simp: list_ex_iff key_number_scored(1))
  then show ?thesis by (simp add: sort_reverse_def)
qed

lemma rank_sections_result:
  fixes h :: store
  defines "n \<equiv> length h"
  assumes valid: "\<forall>r\<in>set rs. r < length h"
    and scored: "\<forall>r\<in>set rs. compute_final_score (h ! r) context_data
           = Inr (score_value h context_data r)"
    and ctx: "context_data = build_persona_context user_persona job_details"
    and h': "h' = h @ map (\<lambda>r. scored_copy (h ! r) (score_value h context_data r)) rs"
  shows "rank_sections h rs user_persona job_details
       = (h', Inr (rev (sort_key (key_number h') (rev [n ..< n + length rs]))))"
proof (cases "rs = []")
  case True
  then show ?thesis using h' by (simp add: rank_sections_def)
next
  case False
  have loop: "rank_loop context_data rs h [] = (h', Inr [n ..< n + length rs])"
    using rank_loop_result [OF valid scored, of "[]"] h' by (simp add: n_def)
  have "\<forall>x\<in>set [n ..< n + length rs]. \<exists>d v. h' ! x = scored_copy d v"
  proof
    fix x assume "x \<in> set [n ..< n + length rs]"
    then obtain i where i: "x = n + i" "i < length rs"
      by (metis add.commute atLeastLessThan_iff le_Suc_ex less_diff_conv2 add_diff_cancel_left' set_upt)
    then have "h' ! x = scored_copy (h ! (rs ! i)) (score_value h context_data (rs ! i))"
      unfolding h' n_def by (simp only: rank_loop_store_nth)
    then show "\<exists>d v. h' ! x = scored_copy d v" by blast
  qed
  then have "sort_reverse h' [n ..< n + length rs]
      = Inr (rev (sort_key (key_number h') (rev [n ..< n + length rs])))"
    by (rule sort_reverse_scored)
  then show ?thesis
    using False loop ctx by (simp add: rank_sections_def)
qed

lemma well_typed_score_value:
  assumes "well_typed_section (h ! r)"
  shows "compute_final_score (h ! r) context_data = Inr (score_value h context_data r)"
proof -
  obtain v where "compute_final_score (h ! r) context_data = Inr v"
    using well_typed_scored [OF assms] by blast
  then show ?thesis by (simp add: score_value_def)
qed

lemma rank_sections_extends:
  assumes "rank_sections h rs user_persona job_details = (h', res)"
  shows "\<exists>ext. h' = h @ ext"
proof (cases "rs = []")
  case True
  then show ?thesis using assms by (simp add: rank_sections_def)
next
  case False
  obtain h1 r1 where loop:
    "rank_loop (build_persona_context user_persona job_details) rs h [] = (h1, r1)"
    by (cases "rank_loop (build_persona_context user_persona job_details) rs h []")
  then have "h' = h1"
    using assms False by (cases r1) (simp_all add: rank_sections_def)
  then show ?thesis using rank_loop_extends [OF loop] by simp
qed

lemma rank_sections_returned:
  assumes run: "rank_sections h rs user_persona job_details = (h', Inr ranked)"
    and valid: "\<forall>r\<in>set rs. r < length h"
    and ctx: "context_data = build_persona_context user_persona job_details"
  shows "(\<forall>r\<in>set rs. compute_final_score (h ! r) context_data
           = Inr (score_value h context_data r))
       \<and> h' = h @ map (\<lambda>r. scored_copy (h ! r) (score_value h context_data r)) rs
       \<and> ranked = rev (sort_key (key_number h') (rev [length h ..< length h + length rs]))"
proof -
  have scored: "\<forall>r\<in>set rs. compute_final_score (h ! r) context_data
           = Inr (score_value h context_data r)"
  proof (cases "rs = []")
    case True
    then show ?thesis by simp
  next
    case False
    obtain h1 r1 where loop: "rank_loop context_data rs h [] = (h1, r1)"
      by (cases "rank_loop context_data rs h []")
    then obtain out where "r1 = Inr out"
      using run False ctx by (cases r1) (simp_all add: rank_sections_def)
    then show ?thesis using rank_loop_scored [OF _ valid] loop by blast
  qed
  show ?thesis
    using rank_sections_result [OF valid scored ctx refl] run scored by simp
qed

lemma ranked_copies:
  fixes h :: store
  assumes h': "h' = h @ map (\<lambda>r. scored_copy (h ! r) (score_value h context_data r)) rs"
    and i: "i < length rs"
  shows "h' ! (length h + i)
       = scored_copy (h ! (rs ! i)) (score_value h context_data (rs ! i))"
  unfolding h' using i by (rule rank_loop_store_nth)


subsection \<open>Evaluations on sample sections\<close>

lemma ex_tfidf_neutral:
  "compute_tfidf_relevance text_content (build_persona_context Map.empty Map.empty) = Inr (1 / 2)"
  by (simp add: tfidf_value build_persona_context_def dict_get_def extract_empty)

lemma ex_single_token: "\<not> py_isspace c \<Longrightarrow> py_split [c] = [[c]]"
  by (simp add: py_split_def)

lemma ex_letters: "\<not> py_isspace CHR ''a''" "\<not> py_isspace CHR ''b''" "\<not> py_isspace CHR ''c''"
  by (simp_all add: py_isspace_def)

lemma ex_score_a:
  "compute_final_score [''content'' \<mapsto> VStr ''a'', ''position'' \<mapsto> VInt 5]
     (build_persona_context Map.empty Map.empty) = Inr (47 / 100)"
  by (simp add: compute_final_score_def dict_get_def ex_tfidf_neutral assess_content_length_def
      ex_single_token ex_letters compute_position_weight_def)

lemma ex_score_b:
  "compute_final_score [''content'' \<mapsto> VStr ''b'', ''position'' \<mapsto> VInt 7]
     (build_persona_context Map.empty Map.empty) = Inr (47 / 100)"
  by (simp add: compute_final_score_def dict_get_def ex_tfidf_neutral assess_content_length_def
      ex_single_token ex_letters compute_position_weight_def)

lemma ex_score_c:
  "compute_final_score [''content'' \<mapsto> VStr ''c'', ''position'' \<mapsto> VInt 0]
     (build_persona_context Map.empty Map.empty) = Inr (49 / 100)"
  by (simp add: compute_final_score_def dict_get_def ex_tfidf_neutral assess_content_length_def
      ex_single_token ex_letters compute_position_weight_def)

lemma ex_ranking:
  "snd (rank_sections
     [[''content'' \<mapsto> VStr ''a'', ''position'' \<mapsto> VInt 5],
      [''content'' \<mapsto> VStr ''b'', ''position'' \<mapsto> VInt 7],
      [''content'' \<mapsto> VStr ''c'', ''position'' \<mapsto> VInt 0]]
     [0, 1, 2] Map.empty Map.empty) = Inr [5, 3, 4]"
  by (simp add: rank_sections_def ex_score_a ex_score_b ex_score_c dict_copy_def setitem_def
      sort_reverse_def sort_key_of_def key_number_def dict_get_def)

section \<open>Properties of the ranker\<close>

text \<open>
  Claim C4. For every persona and job, ranking the empty sequence of sections returns
  the empty sequence: nothing is raised and the store is left as it is.
\<close>

theorem rank_sections_empty:
  "rank_sections h [] user_persona job_details = (h, Inr [])"
  by (simp add: rank_sections_def)

text \<open>
  Claim C2. For every store, persona and job and every sequence of references to
  well-typed sections, \<^verbatim>\<open>rank_sections\<close> returns a list of references to the new
  records, one for each input section: the record for the \<open>i\<close>-th input section is the
  one at \<open>length h + i\<close>, and its \<^verbatim>\<open>relevance_score\<close> is the final score of that
  section. The list is in descending order of \<^verbatim>\<open>relevance_score\<close>, and of two records
  with equal \<^verbatim>\<open>relevance_score\<close> the one made for the earlier input section comes
  first.
\<close>

theorem rank_sections_sorted_stable:
  fixes h :: store and doc_sections :: "ref list" and user_persona job_details :: strdict
  defines "n \<equiv> length h"
  defines "context_data \<equiv> build_persona_context user_persona job_details"
  assumes sections: "\<forall>r\<in>set doc_sections. r < length h \<and> well_typed_section (h ! r)"
  shows "\<exists>h' ranked.
           rank_sections h doc_sections user_persona job_details = (h', Inr ranked)
         \<and> distinct ranked
         \<and> set ranked = {n ..< n + length doc_sections}
         \<and> (\<forall>i < length doc_sections.
               (h' ! (n + i)) ''relevance_score'' = Some (VFloat (key_number h' (n + i)))
             \<and> compute_final_score (h ! (doc_sections ! i)) context_data
                 = Inr (key_number h' (n + i)))
         \<and> sorted_wrt (\<lambda>x y. key_number h' y \<le> key_number h' x) ranked
         \<and> (\<forall>a b. a < b \<and> b < length ranked
                 \<and> key_number h' (ranked ! a) = key_number h' (ranked ! b)
               \<longrightarrow> ranked ! a < ranked ! b)"
proof -
  define h' where
    "h' = h @ map (\<lambda>r. scored_copy (h ! r) (score_value h context_data r)) doc_sections"
  define xs where "xs = [n ..< n + length doc_sections]"
  define ranked where "ranked = rev (sort_key (key_number h') (rev xs))"
  have valid: "\<forall>r\<in>set doc_sections. r < length h"
    using sections by blast
  have scored: "\<forall>r\<in>set doc_sections. compute_final_score (h ! r) context_data
           = Inr (score_value h context_data r)"
    using sections by (simp add: well_typed_score_value)
  have cd: "context_data = build_persona_context user_persona job_details"
    by (simp add: context_data_def)
  have run: "rank_sections h doc_sections user_persona job_details = (h', Inr ranked)"
    using rank_sections_result [OF valid scored cd h'_def]
    by (simp add: ranked_def xs_def n_def)
  have d: "distinct ranked" by (simp add: ranked_def xs_def)
  have s: "set ranked = {n ..< n + length doc_sections}"
    by (simp add: ranked_def xs_def)
  have c: "\<forall>i < length doc_sections.
               (h' ! (n + i)) ''relevance_score'' = Some (VFloat (key_number h' (n + i)))
             \<and> compute_final_score (h ! (doc_sections ! i)) context_data
                 = Inr (key_number h' (n + i))"
  proof (intro allI impI)
    fix i assume i: "i < length doc_sections"
    have copy: "h' ! (n + i) = scored_copy (h ! (doc_sections ! i))
        (score_value h context_data (doc_sections ! i))"
      unfolding n_def using h'_def i by (rule ranked_copies)
    have k: "key_number h' (n + i) = score_value h context_data (doc_sections ! i)"
      using copy by (rule key_number_scored(2))
    have "(h' ! (n + i)) ''relevance_score'' = Some (VFloat (key_number h' (n + i)))"
      unfolding k by (simp add: copy scored_copy_apply)
    moreover have "compute_final_score (h ! (doc_sections ! i)) context_data
                 = Inr (key_number h' (n + i))"
      unfolding k using scored i by simp
    ultimately show "(h' ! (n + i)) ''relevance_score'' = Some (VFloat (key_number h' (n + i)))
             \<and> compute_final_score (h ! (doc_sections ! i)) context_data
                 = Inr (key_number h' (n + i))" ..
  qed
  have o: "sorted_wrt (\<lambda>x y. key_number h' y \<le> key_number h' x) ranked"
    unfolding ranked_def by (rule rev_sort_descending)
  have t: "\<forall>a b. a < b \<and> b < length ranked
                 \<and> key_number h' (ranked ! a) = key_number h' (ranked ! b)
               \<longrightarrow> ranked ! a < ranked ! b"
  proof (intro allI impI, elim conjE)
    fix a b
    assume ab: "a < b" and b: "b < length ranked"
      and e: "key_number h' (ranked ! a) = key_number h' (ranked ! b)"
    have sx: "sorted_wrt (<) xs" by (simp add: xs_def)
    have bx: "b < length xs" using b by (simp add: ranked_def)
    show "ranked ! a < ranked ! b"
      unfolding ranked_def
      by (rule rev_sort_ties_in_order [OF sx ab bx]) (use e in \<open>simp add: ranked_def\<close>)
  qed
  show ?thesis using run d s c o t by blast
qed

theorem rank_sections_sorted_stable_witness:
  "snd (rank_sections
     [[''content'' \<mapsto> VStr ''a'', ''position'' \<mapsto> VInt 5],
      [''content'' \<mapsto> VStr ''b'', ''position'' \<mapsto> VInt 7],
      [''content'' \<mapsto> VStr ''c'', ''position'' \<mapsto> VInt 0]]
     [0, 1, 2] Map.empty Map.empty) = Inr [5, 3, 4]
   \<and> sorted_wrt (\<lambda>x y.
         key_number (fst (rank_sections
           [[''content'' \<mapsto> VStr ''a'', ''position'' \<mapsto> VInt 5],
            [''content'' \<mapsto> VStr ''b'', ''position'' \<mapsto> VInt 7],
            [''content'' \<mapsto> VStr ''c'', ''position'' \<mapsto> VInt 0]]
           [0, 1, 2] Map.empty Map.empty)) y
       \<le> key_number (fst (rank_sections
           [[''content'' \<mapsto> VStr ''a'', ''position'' \<mapsto> VInt 5],
            [''content'' \<mapsto> VStr ''b'', ''position'' \<mapsto> VInt 7],
            [''content'' \<mapsto> VStr ''c'', ''position'' \<mapsto> VInt 0]]
           [0, 1, 2] Map.empty Map.empty)) x) [5, 3, 4]
   \<and> key_number (fst (rank_sections
           [[''content'' \<mapsto> VStr ''a'', ''position'' \<mapsto> VInt 5],
            [''content'' \<mapsto> VStr ''b'', ''position'' \<mapsto> VInt 7],
            [''content'' \<mapsto> VStr ''c'', ''position'' \<mapsto> VInt 0]]
           [0, 1, 2] Map.empty Map.empty)) 3 = 47 / 100
   \<and> key_number (fst (rank_sections
           [[''content'' \<mapsto> VStr ''a'', ''position'' \<mapsto> VInt 5],
            [''content'' \<mapsto> VStr ''b'', ''position'' \<mapsto> VInt 7],
            [''content'' \<mapsto> VStr ''c'', ''position'' \<mapsto> VInt 0]]
           [0, 1, 2] Map.empty Map.empty)) 4 = 47 / 100
   \<and> key_number (fst (rank_sections
           [[''content'' \<mapsto> VStr ''a'', ''position'' \<mapsto> VInt 5],
            [''content'' \<mapsto> VStr ''b'', ''position'' \<mapsto> VInt 7],
            [''content'' \<mapsto> VStr ''c'', ''position'' \<mapsto> VInt 0]]
           [0, 1, 2] Map.empty Map.empty)) 5 = 49 / 100"
proof -
  let ?h = "[[''content'' \<mapsto> VStr ''a'', ''position'' \<mapsto> VInt 5],
      [''content'' \<mapsto> VStr ''b'', ''position'' \<mapsto> VInt 7],
      [''content'' \<mapsto> VStr ''c'', ''position'' \<mapsto> VInt 0]]"
  let ?ctx = "build_persona_context Map.empty Map.empty"
  have sections: "\<forall>r\<in>set [0, 1, 2]. r < length ?h \<and> well_typed_section (?h ! r)"
    by (simp add: well_typed_section_def)
  obtain h' ranked where run: "rank_sections ?h [0, 1, 2] Map.empty Map.empty = (h', Inr ranked)"
    and scores: "\<forall>i < length [0::nat, 1, 2].
        (h' ! (length ?h + i)) ''relevance_score'' = Some (VFloat (key_number h' (length ?h + i)))
      \<and> compute_final_score (?h ! ([0, 1, 2] ! i)) ?ctx = Inr (key_number h' (length ?h + i))"
    and sorted: "sorted_wrt (\<lambda>x y. key_number h' y \<le> key_number h' x) ranked"
    using rank_sections_sorted_stable [OF sections, of Map.empty Map.empty] by blast
  have ranked: "ranked = [5, 3, 4]"
    using run ex_ranking by simp
  have store: "fst (rank_sections ?h [0, 1, 2] Map.empty Map.empty) = h'"
    using run by simp
  have "compute_final_score (?h ! 0) ?ctx = Inr (key_number h' 3)"
    using scores [THEN spec, of 0] by (simp add: eval_nat_numeral)
  then have k3: "key_number h' 3 = 47 / 100"
    by (simp add: ex_score_a)
  have "compute_final_score (?h ! 1) ?ctx = Inr (key_number h' 4)"
    using scores [THEN spec, of 1] by (simp add: eval_nat_numeral)
  then have k4: "key_number h' 4 = 47 / 100"
    by (simp add: ex_score_b)
  have "compute_final_score (?h ! 2) ?ctx = Inr (key_number h' 5)"
    using scores [THEN spec, of 2] by (simp add: eval_nat_numeral)
  then have k5: "key_number h' 5 = 49 / 100"
    by (simp add: ex_score_c)
  show ?thesis
    unfolding store using ex_ranking sorted k3 k4 k5 by (simp only: ranked)
qed

text \<open>
  Claim C3, as amended. \<^verbatim>\<open>rank_sections\<close> changes no dictionary that is in the store
  before the call, whether it returns or raises; in particular every input section is
  as before. When it returns (which it does for well-typed sections), the returned
  references are those of the new records, one for each input section, and the record
  for an input section holds every field of that section other than
  \<^verbatim>\<open>relevance_score\<close> and \<^verbatim>\<open>final_relevance_score\<close> with its value, and the score of
  the section under both of these two keys, in place of whatever the input section
  holds there.
\<close>

theorem rank_sections_frame:
  fixes h :: store and doc_sections :: "ref list" and user_persona job_details :: strdict
  defines "n \<equiv> length h"
  defines "context_data \<equiv> build_persona_context user_persona job_details"
  assumes valid: "\<forall>r\<in>set doc_sections. r < length h"
    and run: "rank_sections h doc_sections user_persona job_details = (h', res)"
  shows "length h \<le> length h'
       \<and> (\<forall>a < length h. h' ! a = h ! a)
       \<and> (\<forall>r\<in>set doc_sections. h' ! r = h ! r)
       \<and> ((\<forall>r\<in>set doc_sections. well_typed_section (h ! r)) \<longrightarrow> (\<exists>ranked. res = Inr ranked))
       \<and> (\<forall>ranked. res = Inr ranked \<longrightarrow>
             distinct ranked
           \<and> set ranked = {n ..< n + length doc_sections}
           \<and> (\<forall>i < length doc_sections. \<exists>v.
                 compute_final_score (h ! (doc_sections ! i)) context_data = Inr v
               \<and> (\<forall>key. (h' ! (n + i)) key =
                     (if key = ''relevance_score'' \<or> key = ''final_relevance_score''
                      then Some (VFloat v) else (h ! (doc_sections ! i)) key))))"
proof -
  have cd: "context_data = build_persona_context user_persona job_details"
    by (simp add: context_data_def)
  obtain ext where ext: "h' = h @ ext"
    using rank_sections_extends [OF run] by blast
  have f1: "length h \<le> length h'" by (simp add: ext)
  have f2: "\<forall>a < length h. h' ! a = h ! a" by (simp add: ext nth_append)
  have f3: "\<forall>r\<in>set doc_sections. h' ! r = h ! r" using f2 valid by blast
  have f4: "(\<forall>r\<in>set doc_sections. well_typed_section (h ! r)) \<longrightarrow> (\<exists>ranked. res = Inr ranked)"
  proof
    assume "\<forall>r\<in>set doc_sections. well_typed_section (h ! r)"
    then have "\<forall>r\<in>set doc_sections. compute_final_score (h ! r) context_data
           = Inr (score_value h context_data r)"
      by (simp add: well_typed_score_value)
    from rank_sections_result [OF valid this cd refl] show "\<exists>ranked. res = Inr ranked"
      using run by simp
  qed
  have f5: "\<forall>ranked. res = Inr ranked \<longrightarrow>
             distinct ranked
           \<and> set ranked = {n ..< n + length doc_sections}
           \<and> (\<forall>i < length doc_sections. \<exists>v.
                 compute_final_score (h ! (doc_sections ! i)) context_data = Inr v
               \<and> (\<forall>key. (h' ! (n + i)) key =
                     (if key = ''relevance_score'' \<or> key = ''final_relevance_score''
                      then Some (VFloat v) else (h ! (doc_sections ! i)) key)))"
  proof (intro allI impI)
    fix ranked assume "res = Inr ranked"
    then have r: "rank_sections h doc_sections user_persona job_details = (h', Inr ranked)"
      using run by simp
    note ret = rank_sections_returned [OF r valid cd]
    have scored: "\<forall>r\<in>set doc_sections. compute_final_score (h ! r) context_data
           = Inr (score_value h context_data r)"
      using ret by blast
    have h': "h' = h @ map (\<lambda>r. scored_copy (h ! r) (score_value h context_data r)) doc_sections"
      using ret by blast
    have rk: "ranked = rev (sort_key (key_number h') (rev [n ..< n + length doc_sections]))"
      unfolding n_def using ret by blast
    have d: "distinct ranked" by (simp add: rk)
    have s: "set ranked = {n ..< n + length doc_sections}" by (simp add: rk)
    have c: "\<forall>i < length doc_sections. \<exists>v.
                 compute_final_score (h ! (doc_sections ! i)) context_data = Inr v
               \<and> (\<forall>key. (h' ! (n + i)) key =
                     (if key = ''relevance_score'' \<or> key = ''final_relevance_score''
                      then Some (VFloat v) else (h ! (doc_sections ! i)) key))"
    proof (intro allI impI)
      fix i assume i: "i < length doc_sections"
      let ?v = "score_value h context_data (doc_sections ! i)"
      have copy: "h' ! (n + i) = scored_copy (h ! (doc_sections ! i)) ?v"
        unfolding n_def using h' i by (rule ranked_copies)
      have "compute_final_score (h ! (doc_sections ! i)) context_data = Inr ?v"
        using scored i by simp
      moreover have "\<forall>key. (h' ! (n + i)) key =
                     (if key = ''relevance_score'' \<or> key = ''final_relevance_score''
                      then Some (VFloat ?v) else (h ! (doc_sections ! i)) key)"
        by (simp only: copy scored_copy_apply) simp
      ultimately show "\<exists>v.
                 compute_final_score (h ! (doc_sections ! i)) context_data = Inr v
               \<and> (\<forall>key. (h' ! (n + i)) key =
                     (if key = ''relevance_score'' \<or> key = ''final_relevance_score''
                      then Some (VFloat v) else (h ! (doc_sections ! i)) key))"
        by blast
    qed
    show "distinct ranked
           \<and> set ranked = {n ..< n + length doc_sections}
           \<and> (\<forall>i < length doc_sections. \<exists>v.
                 compute_final_score (h ! (doc_sections ! i)) context_data = Inr v
               \<and> (\<forall>key. (h' ! (n + i)) key =
                     (if key = ''relevance_score'' \<or> key = ''final_relevance_score''
                      then Some (VFloat v) else (h ! (doc_sections ! i)) key)))"
      using d s c by blast
  qed
  show ?thesis using f1 f2 f3 f4 f5 by blast
qed

theorem rank_sections_frame_witness:
  "fst (rank_sections
     [[''content'' \<mapsto> VStr ''a'', ''position'' \<mapsto> VInt 5],
      [''content'' \<mapsto> VStr ''b'', ''position'' \<mapsto> VInt 7]]
     [0, 1] Map.empty Map.empty) ! 0 = [''content'' \<mapsto> VStr ''a'', ''position'' \<mapsto> VInt 5]
   \<and> fst (rank_sections
     [[''content'' \<mapsto> VStr ''a'', ''position'' \<mapsto> VInt 5],
      [''content'' \<mapsto> VStr ''b'', ''position'' \<mapsto> VInt 7]]
     [0, 1] Map.empty Map.empty) ! 1 = [''content'' \<mapsto> VStr ''b'', ''position'' \<mapsto> VInt 7]
   \<and> (\<exists>ranked. snd (rank_sections
     [[''content'' \<mapsto> VStr ''a'', ''position'' \<mapsto> VInt 5],
      [''content'' \<mapsto> VStr ''b'', ''position'' \<mapsto> VInt 7]]
     [0, 1] Map.empty Map.empty) = Inr ranked \<and> distinct ranked \<and> set ranked = {2 ..< 4})
   \<and> (fst (rank_sections
     [[''content'' \<mapsto> VStr ''a'', ''position'' \<mapsto> VInt 5],
      [''content'' \<mapsto> VStr ''b'', ''position'' \<mapsto> VInt 7]]
     [0, 1] Map.empty Map.empty) ! 2) ''content'' = Some (VStr ''a'')
   \<and> (fst (rank_sections
     [[''content'' \<mapsto> VStr ''a'', ''position'' \<mapsto> VInt 5],
      [''content'' \<mapsto> VStr ''b'', ''position'' \<mapsto> VInt 7]]
     [0, 1] Map.empty Map.empty) ! 2) ''final_relevance_score'' = Some (VFloat (47 / 100))"
proof -
  let ?h = "[[''content'' \<mapsto> VStr ''a'', ''position'' \<mapsto> VInt 5],
      [''content'' \<mapsto> VStr ''b'', ''position'' \<mapsto> VInt 7]]"
  let ?ctx = "build_persona_context Map.empty Map.empty"
  let ?run = "rank_sections ?h [0, 1] Map.empty Map.empty"
  have valid: "\<forall>r\<in>set [0, 1]. r < length ?h" by simp
  have typed: "\<forall>r\<in>set [0, 1]. well_typed_section (?h ! r)"
    by (simp add: well_typed_section_def)
  have run: "?run = (fst ?run, snd ?run)" by simp
  note frame = rank_sections_frame [OF valid run]
  have same: "\<forall>r\<in>set [0, 1]. fst ?run ! r = ?h ! r"
    by (rule frame [THEN conjunct2, THEN conjunct2, THEN conjunct1])
  have "\<exists>ranked. snd ?run = Inr ranked"
    by (rule frame [THEN conjunct2, THEN conjunct2, THEN conjunct2, THEN conjunct1, THEN mp,
          OF typed])
  then obtain ranked where ranked: "snd ?run = Inr ranked" ..
  have copies: "distinct ranked \<and> set ranked = {length ?h ..< length ?h + length [0::nat, 1]}
      \<and> (\<forall>i < length [0::nat, 1]. \<exists>v.
            compute_final_score (?h ! ([0, 1] ! i)) ?ctx = Inr v
          \<and> (\<forall>key. (fst ?run ! (length ?h + i)) key =
                (if key = ''relevance_score'' \<or> key = ''final_relevance_score''
                 then Some (VFloat v) else (?h ! ([0, 1] ! i)) key)))"
    by (rule frame [THEN conjunct2, THEN conjunct2, THEN conjunct2, THEN conjunct2, THEN spec,
          THEN mp, OF ranked])
  have zero: "0 < length [0::nat, 1]" by simp
  have "\<exists>v. compute_final_score (?h ! ([0, 1] ! 0)) ?ctx = Inr v
          \<and> (\<forall>key. (fst ?run ! (length ?h + 0)) key =
                (if key = ''relevance_score'' \<or> key = ''final_relevance_score''
                 then Some (VFloat v) else (?h ! ([0, 1] ! 0)) key))"
    by (rule copies [THEN conjunct2, THEN conjunct2, THEN spec, THEN mp, OF zero])
  then obtain v where v: "compute_final_score (?h ! ([0, 1] ! 0)) ?ctx = Inr v"
    and fields: "\<forall>key. (fst ?run ! (length ?h + 0)) key =
                (if key = ''relevance_score'' \<or> key = ''final_relevance_score''
                 then Some (VFloat v) else (?h ! ([0, 1] ! 0)) key)"
    by (elim exE conjE)
  have v47: "v = 47 / 100" using v by (simp add: ex_score_a)
  have c: "(fst ?run ! 2) ''content'' = Some (VStr ''a'')"
    using fields [THEN spec, of "''content''"] by (simp add: eval_nat_numeral)
  have s: "(fst ?run ! 2) ''final_relevance_score'' = Some (VFloat (47 / 100))"
    using fields [THEN spec, of "''final_relevance_score''"] v47 by (simp add: eval_nat_numeral)
  have d: "distinct ranked" and e: "set ranked = {2 ..< 4}"
    using copies by (simp_all add: eval_nat_numeral)
  have r: "\<exists>ranked. snd ?run = Inr ranked \<and> distinct ranked \<and> set ranked = {2 ..< 4}"
    using ranked d e by (intro exI [of _ ranked] conjI)
  have s0: "fst ?run ! 0 = ?h ! 0" and s1: "fst ?run ! 1 = ?h ! 1"
    using same by (simp_all add: eval_nat_numeral)
  show ?thesis
    using s0 s1 r c s by (intro conjI) (simp_all add: eval_nat_numeral)
qed

text \<open>
  The two keys are assigned, not added: a section that already holds a
  \<^verbatim>\<open>relevance_score\<close>, such as a record ranked before, does not keep its value in
  the output record.
\<close>

theorem rank_sections_overwrites_score_counterexample:
  "snd (rank_sections
     [[''content'' \<mapsto> VStr ''a'', ''position'' \<mapsto> VInt 5,
       ''relevance_score'' \<mapsto> VFloat (9 / 10), ''final_relevance_score'' \<mapsto> VFloat (9 / 10)]]
     [0] Map.empty Map.empty) = Inr [1]
   \<and> [''content'' \<mapsto> VStr ''a'', ''position'' \<mapsto> VInt 5,
       ''relevance_score'' \<mapsto> VFloat (9 / 10), ''final_relevance_score'' \<mapsto> VFloat (9 / 10)]
        ''relevance_score'' = Some (VFloat (9 / 10))
   \<and> (fst (rank_sections
     [[''content'' \<mapsto> VStr ''a'', ''position'' \<mapsto> VInt 5,
       ''relevance_score'' \<mapsto> VFloat (9 / 10), ''final_relevance_score'' \<mapsto> VFloat (9 / 10)]]
     [0] Map.empty Map.empty) ! 1) ''relevance_score'' = Some (VFloat (47 / 100))"
proof -
  have "compute_final_score
     [''content'' \<mapsto> VStr ''a'', ''position'' \<mapsto> VInt 5,
       ''relevance_score'' \<mapsto> VFloat (9 / 10), ''final_relevance_score'' \<mapsto> VFloat (9 / 10)]
     (build_persona_context Map.empty Map.empty) = Inr (47 / 100)"
    by (simp add: compute_final_score_def dict_get_def ex_tfidf_neutral assess_content_length_def
        ex_single_token ex_letters compute_position_weight_def)
  then show ?thesis
    by (simp add: rank_sections_def dict_copy_def setitem_def
        sort_reverse_def sort_key_of_def key_number_def dict_get_def)
qed

end
